theory Spec2Isabelle
  imports Complex_Main "HOL-Library.Code_Target_Nat"
begin

section \<open>Python values\<close>

text \<open>
  The program is \<^verbatim>\<open>src/demo/model_comparison.py\<close>. A Python \<^verbatim>\<open>str\<close> is a sequence of
  Unicode code points, so it is modelled as a list of natural numbers; ASCII literals of
  the source are written \<open>U ''...''\<close>.
\<close>

type_synonym pystr = "nat list"

definition U :: "string \<Rightarrow> pystr" where
  "U s = map of_char s"

text \<open>
  What \<^verbatim>\<open>json.loads\<close> can produce. A float is kept as the text it was read from: the code
  under study never calculates with a float that comes out of a document. A \<^verbatim>\<open>dict\<close> is an
  association list in insertion order, read with \<open>map_of\<close>.
\<close>

datatype json =
    JNull
  | JBool bool
  | JInt int
  | JFloat pystr
  | JStr pystr
  | JArr "json list"
  | JObj "(pystr \<times> json) list"

type_synonym pydict = "(pystr \<times> json) list"

text \<open>The numbers of a result dictionary: \<^verbatim>\<open>int\<close>, or \<^verbatim>\<open>float\<close> carried as an exact rational.\<close>

datatype pynum = PyInt int | PyFloat rat

section \<open>Comparator\<close>

text \<open>
  \<^verbatim>\<open>compare_entities\<close> and \<^verbatim>\<open>calculate_metrics\<close> are annotated to take lists of dictionaries
  (\<^verbatim>\<open>List[Dict[str, Any]]\<close>), and so do their models.
\<close>

text \<open>\<^verbatim>\<open>d.get(k, default)\<close> on a dictionary.\<close>

definition dict_get :: "pydict \<Rightarrow> pystr \<Rightarrow> json \<Rightarrow> json" where
  "dict_get d k dflt = (case map_of d k of Some v \<Rightarrow> v | None \<Rightarrow> dflt)"

text \<open>
  A replacement field \<^verbatim>\<open>{v}\<close> of an f-string: a \<^verbatim>\<open>str\<close> is inserted as it is, any other
  value through \<^verbatim>\<open>str(v)\<close>, which is the parameter \<open>str_of\<close> (the text of a float or of a
  container is the interpreter's business).
\<close>

definition fmt :: "(json \<Rightarrow> pystr) \<Rightarrow> json \<Rightarrow> pystr" where
  "fmt str_of v = (case v of JStr s \<Rightarrow> s | _ \<Rightarrow> str_of v)"

text \<open>
  \<^verbatim>\<open>entity_key\<close>, local to \<^verbatim>\<open>compare_entities\<close> and to \<^verbatim>\<open>calculate_metrics\<close>:
  \<^verbatim>\<open>f"{name}|{type_}"\<close> with \<^verbatim>\<open>name = entity.get("name", "")\<close> and
  \<^verbatim>\<open>type_ = entity.get("type", "")\<close>.
\<close>

definition entity_key :: "(json \<Rightarrow> pystr) \<Rightarrow> pydict \<Rightarrow> pystr" where
  "entity_key str_of entity =
     (let name = dict_get entity (U ''name'') (JStr []);
          type' = dict_get entity (U ''type'') (JStr [])
      in fmt str_of name @ U ''|'' @ fmt str_of type')"

record comparison =
  base_total :: int
  lora_total :: int
  common :: int
  base_only :: int
  lora_only :: int
  improvement :: int

definition compare_entities ::
  "(json \<Rightarrow> pystr) \<Rightarrow> pydict list \<Rightarrow> pydict list \<Rightarrow> comparison" where
  "compare_entities str_of base_entities lora_entities =
     (let base_set = set (map (entity_key str_of) base_entities);
          lora_set = set (map (entity_key str_of) lora_entities);
          common_set = base_set \<inter> lora_set;
          base_only_set = base_set - lora_set;
          lora_only_set = lora_set - base_set
      in \<lparr> base_total = int (length base_entities),
           lora_total = int (length lora_entities),
           common = int (card common_set),
           base_only = int (card base_only_set),
           lora_only = int (card lora_only_set),
           improvement = int (length lora_entities) - int (length base_entities) \<rparr>)"

text \<open>
  \<^verbatim>\<open>calculate_metrics\<close>. The result is a dictionary, so the model returns the list of its
  items: which keys are present differs between the two return statements. True division
  \<^verbatim>\<open>/\<close> yields a float; the model computes the quotient exactly.
\<close>

definition calculate_metrics ::
  "(json \<Rightarrow> pystr) \<Rightarrow> pydict list option \<Rightarrow> pydict list \<Rightarrow> (pystr \<times> pynum) list" where
  "calculate_metrics str_of ground_truth predictions =
     (case ground_truth of
        None \<Rightarrow> [(U ''precision'', PyFloat 0), (U ''recall'', PyFloat 0), (U ''f1'', PyFloat 0)]
      | Some [] \<Rightarrow> [(U ''precision'', PyFloat 0), (U ''recall'', PyFloat 0), (U ''f1'', PyFloat 0)]
      | Some gt \<Rightarrow>
          (let gt_set = set (map (entity_key str_of) gt);
               pred_set = set (map (entity_key str_of) predictions);
               true_positives = int (card (gt_set \<inter> pred_set));
               false_positives = int (card (pred_set - gt_set));
               false_negatives = int (card (gt_set - pred_set));
               precision = (if true_positives + false_positives > 0
                            then of_int true_positives / of_int (true_positives + false_positives)
                            else 0);
               recall = (if true_positives + false_negatives > 0
                         then of_int true_positives / of_int (true_positives + false_negatives)
                         else 0);
               f1 = (if precision + recall > 0
                     then 2 * precision * recall / (precision + recall)
                     else 0)
           in [(U ''precision'', PyFloat precision),
               (U ''recall'', PyFloat recall),
               (U ''f1'', PyFloat f1),
               (U ''true_positives'', PyInt true_positives),
               (U ''false_positives'', PyInt false_positives),
               (U ''false_negatives'', PyInt false_negatives)]))"

section \<open>Strings\<close>

text \<open>
  The characters that \<^verbatim>\<open>str.strip()\<close> removes and that \<^verbatim>\<open>\s\<close> matches in a \<^verbatim>\<open>str\<close>
  pattern: the interpreter's table of Unicode white space.
\<close>

definition py_isspace :: "nat \<Rightarrow> bool" where
  "py_isspace c =
     ((0x9 \<le> c \<and> c \<le> 0xD) \<or> (0x1C \<le> c \<and> c \<le> 0x20) \<or> c = 0x85 \<or> c = 0xA0 \<or> c = 0x1680
      \<or> (0x2000 \<le> c \<and> c \<le> 0x200A) \<or> c = 0x2028 \<or> c = 0x2029 \<or> c = 0x202F \<or> c = 0x205F
      \<or> c = 0x3000)"

definition startswith :: "pystr \<Rightarrow> pystr \<Rightarrow> bool" where
  "startswith s p = (take (length p) s = p)"

definition endswith :: "pystr \<Rightarrow> pystr \<Rightarrow> bool" where
  "endswith s p = (length p \<le> length s \<and> drop (length s - length p) s = p)"

text \<open>\<^verbatim>\<open>s.find(sub)\<close>: the lowest index where \<open>sub\<close> starts, or \<open>-1\<close>; \<open>i\<close> is the index reached.\<close>

fun py_find_from :: "nat \<Rightarrow> pystr \<Rightarrow> pystr \<Rightarrow> int" where
  "py_find_from i [] sub = (if sub = [] then int i else - 1)"
| "py_find_from i (c # cs) sub =
     (if startswith (c # cs) sub then int i else py_find_from (Suc i) cs sub)"

definition py_find :: "pystr \<Rightarrow> pystr \<Rightarrow> int" where
  "py_find s sub = py_find_from 0 s sub"

text \<open>\<^verbatim>\<open>sub in s\<close> for two strings.\<close>

definition py_in :: "pystr \<Rightarrow> pystr \<Rightarrow> bool" where
  "py_in sub s = (py_find s sub \<ge> 0)"

definition py_strip :: "pystr \<Rightarrow> pystr" where
  "py_strip s = rev (dropWhile py_isspace (rev (dropWhile py_isspace s)))"

text \<open>\<^verbatim>\<open>s.split(sep)\<close> for a separator of one character: never the empty list.\<close>

fun py_split :: "nat \<Rightarrow> pystr \<Rightarrow> pystr list" where
  "py_split sep [] = [[]]"
| "py_split sep (c # cs) =
     (if c = sep then [] # py_split sep cs
      else (case py_split sep cs of [] \<Rightarrow> [[c]] | w # ws \<Rightarrow> (c # w) # ws))"

section \<open>Exceptions and the operations that raise them\<close>

text \<open>
  The exception classes that the modelled statements can raise; \<open>Raised c\<close> is an exception of
  any other class derived from \<^verbatim>\<open>Exception\<close>, raised inside a library call (a transport error
  of \<^verbatim>\<open>requests\<close>, \<^verbatim>\<open>RecursionError\<close>, ...). A function that can raise returns \<open>exn + 'a\<close>.
\<close>

datatype exn = JSONDecodeError | AttributeError | TypeError | KeyError | IndexError | Raised pystr

definition bind_exn :: "exn + 'a \<Rightarrow> ('a \<Rightarrow> exn + 'b) \<Rightarrow> exn + 'b" where
  "bind_exn r f = (case r of Inl e \<Rightarrow> Inl e | Inr v \<Rightarrow> f v)"

text \<open>\<^verbatim>\<open>k in data\<close> for a string \<open>k\<close> and a value that came out of a JSON document.\<close>

definition py_contains :: "pystr \<Rightarrow> json \<Rightarrow> exn + bool" where
  "py_contains k data =
     (case data of
        JObj d \<Rightarrow> Inr (map_of d k \<noteq> None)
      | JArr xs \<Rightarrow> Inr (JStr k \<in> set xs)
      | JStr s \<Rightarrow> Inr (py_in k s)
      | _ \<Rightarrow> Inl TypeError)"

text \<open>\<^verbatim>\<open>data[k]\<close> for a string \<open>k\<close>: only a dictionary can be indexed by a string.\<close>

definition py_getitem :: "json \<Rightarrow> pystr \<Rightarrow> exn + json" where
  "py_getitem data k =
     (case data of
        JObj d \<Rightarrow> (case map_of d k of Some v \<Rightarrow> Inr v | None \<Rightarrow> Inl KeyError)
      | _ \<Rightarrow> Inl TypeError)"


text \<open>\<^verbatim>\<open>entity.get\<close>: the attribute exists on a dictionary only.\<close>

definition get_method :: "json \<Rightarrow> exn + pydict" where
  "get_method entity = (case entity of JObj d \<Rightarrow> Inr d | _ \<Rightarrow> Inl AttributeError)"

section \<open>Response parser\<close>

text \<open>
  The pattern \<^verbatim>\<open>\{\s*"entities"\s*:\s*\[([^\]]*)\]\s*\}\<close>. Every repetition in it is followed
  by a character that the repeated class excludes, so the greedy match is the only one and a
  match at a given position is a function: \<open>match_at s\<close> gives the group and the text after
  the match when the pattern matches a prefix of \<open>s\<close>.
\<close>

definition expect :: "pystr \<Rightarrow> pystr \<Rightarrow> pystr option" where
  "expect lit s = (if startswith s lit then Some (drop (length lit) s) else None)"

definition match_at :: "pystr \<Rightarrow> (pystr \<times> pystr) option" where
  \<open>match_at s =
     Option.bind (expect (U ''{'') s) (\<lambda>s1.
     Option.bind (expect (U ''"entities"'') (dropWhile py_isspace s1)) (\<lambda>s2.
     Option.bind (expect (U '':'') (dropWhile py_isspace s2)) (\<lambda>s3.
     Option.bind (expect (U ''['') (dropWhile py_isspace s3)) (\<lambda>s4.
     Option.bind (expect (U '']'') (dropWhile (\<lambda>c. c \<noteq> 0x5D) s4)) (\<lambda>s5.
     Option.bind (expect (U ''}'') (dropWhile py_isspace s5)) (\<lambda>s6.
       Some (takeWhile (\<lambda>c. c \<noteq> 0x5D) s4, s6)))))))\<close>

lemma expect_length: "expect lit s = Some r \<Longrightarrow> length r + length lit = length s"
proof -
  assume "expect lit s = Some r"
  then have a: "take (length lit) s = lit" and b: "r = drop (length lit) s"
    by (auto simp: expect_def startswith_def split: if_splits)
  have "length (take (length lit) s) = length lit" using a by simp
  then have "length lit \<le> length s" by simp
  then show ?thesis using b by simp
qed

lemma expect_le: "expect lit (dropWhile P s) = Some r \<Longrightarrow> length r \<le> length s"
  using expect_length [of lit "dropWhile P s" r] length_dropWhile_le [of P s] by linarith

lemma match_at_shorter: "match_at s = Some (g, r) \<Longrightarrow> length r < length s"
proof -
  assume m: "match_at s = Some (g, r)"
  from m obtain s1 where e1: "expect (U ''{'') s = Some s1"
    by (auto simp: match_at_def bind_eq_Some_conv)
  from m e1 obtain s2 s3 s4 s5 where
    e2: "expect (U ''\"entities\"'') (dropWhile py_isspace s1) = Some s2" and
    e3: "expect (U '':'') (dropWhile py_isspace s2) = Some s3" and
    e4: "expect (U ''['') (dropWhile py_isspace s3) = Some s4" and
    e5: "expect (U '']'') (dropWhile (\<lambda>c. c \<noteq> 0x5D) s4) = Some s5" and
    e6: "expect (U ''}'') (dropWhile py_isspace s5) = Some r"
    by (auto simp: match_at_def bind_eq_Some_conv)
  have "length s1 < length s"
    using expect_length [OF e1] by (simp add: U_def)
  then show ?thesis
    using expect_le [OF e2] expect_le [OF e3] expect_le [OF e4] expect_le [OF e5] expect_le [OF e6]
    by linarith
qed

text \<open>
  \<^verbatim>\<open>re.findall(json_pattern, clean_text, re.DOTALL)\<close>: the groups of the matches found
  from left to right, the search resuming where the last match ended.
\<close>

function findall :: "pystr \<Rightarrow> pystr list" where
  "findall [] = []"
| "findall (c # cs) =
     (case match_at (c # cs) of
        Some (g, rest) \<Rightarrow> g # findall rest
      | None \<Rightarrow> findall cs)"
  by pat_completeness auto
termination
  by (relation "measure length") (auto dest: match_at_shorter)

text \<open>\<^verbatim>\<open>json_str = f'{{"entities": [{match}]}}'\<close>\<close>

definition json_str :: "pystr \<Rightarrow> pystr" where
  \<open>json_str match = U ''{"entities": ['' @ match @ U '']}''\<close>

text \<open>
  The loop over the matches (lines 135 to 142), from the list \<open>entities\<close> accumulated so far.
  The result is the list when the loop ends and the exception that ended it, if any:
  \<^verbatim>\<open>JSONDecodeError\<close> is caught inside the loop, any other exception leaves it. The parameter
  \<open>loads\<close> is \<^verbatim>\<open>json.loads\<close>.
\<close>

fun extend_matches ::
  "(pystr \<Rightarrow> exn + json) \<Rightarrow> json list \<Rightarrow> pystr list \<Rightarrow> json list \<times> exn option" where
  "extend_matches loads ents [] = (ents, None)"
| "extend_matches loads ents (m # ms) =
     (case loads (json_str m) of
        Inl e \<Rightarrow> (if e = JSONDecodeError then extend_matches loads ents ms else (ents, Some e))
      | Inr data \<Rightarrow>
          (case py_contains (U ''entities'') data of
             Inl e \<Rightarrow> (ents, Some e)
           | Inr False \<Rightarrow> extend_matches loads ents ms
           | Inr True \<Rightarrow>
               (case py_getitem data (U ''entities'') of
                  Inl e \<Rightarrow> (ents, Some e)
                | Inr (JArr xs) \<Rightarrow> extend_matches loads (ents @ xs) ms
                | Inr _ \<Rightarrow> extend_matches loads ents ms)))"

text \<open>
  The loop over the lines (lines 147 to 155): \<open>Inr (Some v)\<close> when it returns \<open>v\<close>,
  \<open>Inr None\<close> when it ends without returning, \<open>Inl e\<close> when an exception leaves it.
\<close>

fun scan_lines :: "(pystr \<Rightarrow> exn + json) \<Rightarrow> pystr list \<Rightarrow> exn + json option" where
  "scan_lines loads [] = Inr None"
| "scan_lines loads (l # ls) =
     (let line = py_strip l in
      if startswith line (U ''{'') \<and> endswith line (U ''}'') then
        (case loads line of
           Inl e \<Rightarrow> (if e = JSONDecodeError then scan_lines loads ls else Inl e)
         | Inr data \<Rightarrow>
             (case py_contains (U ''entities'') data of
                Inl e \<Rightarrow> Inl e
              | Inr False \<Rightarrow> scan_lines loads ls
              | Inr True \<Rightarrow>
                  (case py_getitem data (U ''entities'') of
                     Inl e \<Rightarrow> Inl e
                   | Inr v \<Rightarrow> Inr (Some v))))
      else scan_lines loads ls)"

text \<open>
  The key that the parser computes in line 161,
  \<^verbatim>\<open>f"{entity.get('name', '')}|{entity.get('type', '')}"\<close>, for an element of any kind.
\<close>

definition key_of :: "(json \<Rightarrow> pystr) \<Rightarrow> json \<Rightarrow> exn + pystr" where
  "key_of str_of entity = bind_exn (get_method entity) (\<lambda>d. Inr (entity_key str_of d))"

text \<open>The loop that keeps the first entity of every key (lines 158 to 164).\<close>

fun unique_loop ::
  "(json \<Rightarrow> pystr) \<Rightarrow> pystr set \<Rightarrow> json list \<Rightarrow> json list \<Rightarrow> exn + json list" where
  "unique_loop str_of seen unique_entities [] = Inr unique_entities"
| "unique_loop str_of seen unique_entities (entity # rest) =
     (case key_of str_of entity of
        Inl e \<Rightarrow> Inl e
      | Inr key \<Rightarrow>
          (if key \<notin> seen
           then unique_loop str_of (insert key seen) (unique_entities @ [entity]) rest
           else unique_loop str_of seen unique_entities rest))"

text \<open>Lines 121 to 126: the text after the first \<^verbatim>\<open></think>\<close>, when \<^verbatim>\<open><think>\<close> occurs.\<close>

definition clean_text :: "pystr \<Rightarrow> pystr" where
  "clean_text response_text =
     (if py_in (U ''<think>'') response_text then
        (let think_end = py_find response_text (U ''</think>'') in
         if think_end \<ge> 0 then drop (nat (think_end + 8)) response_text else response_text)
      else response_text)"

text \<open>
  Lines 128 to 166, the rest of the \<^verbatim>\<open>try\<close> block: the list \<open>entities\<close> when the block is
  left, and how it is left (\<open>Inr v\<close> by \<^verbatim>\<open>return v\<close>, \<open>Inl e\<close> by an exception).
\<close>

definition parse_clean ::
  "(pystr \<Rightarrow> exn + json) \<Rightarrow> (json \<Rightarrow> pystr) \<Rightarrow> pystr \<Rightarrow> json list \<times> (exn + json)" where
  "parse_clean loads str_of text =
     (let matches = findall text;
          (ents, raised) = extend_matches loads [] matches
      in case raised of
           Some e \<Rightarrow> (ents, Inl e)
         | None \<Rightarrow>
             (case (if ents = [] then scan_lines loads (py_split 0xA (py_strip text))
                    else Inr None) of
                Inl e \<Rightarrow> (ents, Inl e)
              | Inr (Some v) \<Rightarrow> (ents, Inr v)
              | Inr None \<Rightarrow>
                  (case unique_loop str_of {} [] ents of
                     Inl e \<Rightarrow> (ents, Inl e)
                   | Inr unique_entities \<Rightarrow> (ents, Inr (JArr unique_entities)))))"

definition try_block ::
  "(pystr \<Rightarrow> exn + json) \<Rightarrow> (json \<Rightarrow> pystr) \<Rightarrow> pystr \<Rightarrow> json list \<times> (exn + json)" where
  "try_block loads str_of response_text = parse_clean loads str_of (clean_text response_text)"

text \<open>
  \<^verbatim>\<open>except Exception: pass\<close> and the \<^verbatim>\<open>return entities\<close> after it: a value returned by the
  block is the result; when an exception left the block, the result is the list \<open>entities\<close>
  as it was then. The result is a sum so that an exception that reached the caller would be
  a value \<open>Inl e\<close>.
\<close>

definition except_pass :: "json list \<times> (exn + json) \<Rightarrow> exn + json" where
  "except_pass r = (case r of (ents, Inr v) \<Rightarrow> Inr v | (ents, Inl e) \<Rightarrow> Inr (JArr ents))"

text \<open>\<^verbatim>\<open>_extract_entities_from_response\<close>\<close>

definition extract_entities_from_response ::
  "(pystr \<Rightarrow> exn + json) \<Rightarrow> (json \<Rightarrow> pystr) \<Rightarrow> pystr \<Rightarrow> exn + json" where
  "extract_entities_from_response loads str_of response_text =
     except_pass (try_block loads str_of response_text)"

section \<open>Dispatcher\<close>









record ModelResult =
  model_name :: pystr
  entities :: json
  inference_time :: rat
  success :: bool
  error_message :: pystr
  raw_response :: json





section \<open>Notions of the specification\<close>

text \<open>
  The key of an element of an entity list: \<^verbatim>\<open>"{name}|{type}"\<close>, a missing field read as the
  empty string.
\<close>

definition key_text :: "(json \<Rightarrow> pystr) \<Rightarrow> json \<Rightarrow> pystr" where
  "key_text str_of e = entity_key str_of (case e of JObj d \<Rightarrow> d | _ \<Rightarrow> [])"






text \<open>
  A line that the second loop hands to \<^verbatim>\<open>json.loads\<close>, and a line that the loop passes
  over: one that is not handed over, that \<^verbatim>\<open>json.loads\<close> rejects, or that is an object
  without the field \<^verbatim>\<open>entities\<close>.
\<close>

definition braced :: "pystr \<Rightarrow> bool" where
  "braced l = (startswith (py_strip l) (U ''{'') \<and> endswith (py_strip l) (U ''}''))"

definition passed_over :: "(pystr \<Rightarrow> exn + json) \<Rightarrow> pystr \<Rightarrow> bool" where
  "passed_over loads l =
     (\<not> braced l \<or> loads (py_strip l) = Inl JSONDecodeError
      \<or> (\<exists>d. loads (py_strip l) = Inr (JObj d) \<and> map_of d (U ''entities'') = None))"

section \<open>Sample data\<close>

text \<open>The entities of the scenario of the specification, as dictionaries.\<close>

definition tank :: pydict where
  "tank = [(U ''name'', JStr [0x5766, 0x514B]),
           (U ''type'', JStr [0x519B, 0x4E8B, 0x88C5, 0x5907])]"

definition missile :: pydict where
  "missile = [(U ''name'', JStr [0x5BFC, 0x5F39]),
              (U ''type'', JStr [0x519B, 0x4E8B, 0x88C5, 0x5907])]"

text \<open>The sentence that the prompt prescribes when there is no entity.\<close>

definition nothing_found :: pystr where
  "nothing_found =
     [0x6CA1, 0x6709, 0x627E, 0x5230, 0x4EFB, 0x4F55, 0x5B9E, 0x4F53, 0x548C, 0x5173, 0x7CFB]"

text \<open>Two entities as they come out of a document, and the texts they are read from.\<close>

definition e_tank :: json where
  "e_tank = JObj [(U ''name'', JStr (U ''tank'')), (U ''type'', JStr (U ''equipment''))]"

definition e_city :: json where
  "e_city = JObj [(U ''name'', JStr (U ''Lanzhou'')), (U ''type'', JStr (U ''location''))]"

definition src_tank :: pystr where
  \<open>src_tank = U ''{"name": "tank", "type": "equipment"}''\<close>

definition src_city :: pystr where
  \<open>src_city = U ''{"name": "Lanzhou", "type": "location"}''\<close>

text \<open>A line that is an object with the list of entities in second place, twice the same.\<close>

definition line_with_duplicates :: pystr where
  \<open>line_with_duplicates =
     U ''{"ok": true, "entities": ['' @ src_tank @ U '', '' @ src_tank @ U '']}''\<close>

text \<open>
  The values of \<^verbatim>\<open>json.loads\<close> on the documents of the examples; \<open>sample_loads\<close> answers from
  this table and rejects any other text, so it stands for \<^verbatim>\<open>json.loads\<close> wherever the texts
  it is asked about are these documents or are no JSON at all.
\<close>

definition sample_documents :: "(pystr \<times> json) list" where
  \<open>sample_documents =
     [(json_str src_tank, JObj [(U ''entities'', JArr [e_tank])]),
      (json_str (src_tank @ U '', '' @ src_city), JObj [(U ''entities'', JArr [e_tank, e_city])]),
      (json_str (src_tank @ U '', '' @ src_tank @ U '', 5''),
         JObj [(U ''entities'', JArr [e_tank, e_tank, JInt 5])]),
      (json_str [], JObj [(U ''entities'', JArr [])]),
      (U ''{"entities": 5}'', JObj [(U ''entities'', JInt 5)]),
      (line_with_duplicates,
         JObj [(U ''ok'', JBool True), (U ''entities'', JArr [e_tank, e_tank])])]\<close>

definition sample_loads :: "pystr \<Rightarrow> exn + json" where
  "sample_loads s =
     (case map_of sample_documents s of Some v \<Rightarrow> Inr v | None \<Rightarrow> Inl JSONDecodeError)"

text \<open>A stand-in for \<^verbatim>\<open>str\<close> on values that are no strings; the examples have none.\<close>

definition str_unused :: "json \<Rightarrow> pystr" where
  "str_unused v = []"



section \<open>Comparator: proofs\<close>

lemma card_Int_Diff_split: "finite A \<Longrightarrow> card (A \<inter> B) + card (A - B) = card A"
proof -
  assume fin: "finite A"
  have "card ((A \<inter> B) \<union> (A - B)) = card (A \<inter> B) + card (A - B)"
    by (rule card_Un_disjoint) (use fin in auto)
  moreover have "(A \<inter> B) \<union> (A - B) = A" by blast
  ultimately show ?thesis by simp
qed

lemma key_tank:
  "entity_key f tank = [0x5766, 0x514B, 0x7C, 0x519B, 0x4E8B, 0x88C5, 0x5907]"
  by (simp add: entity_key_def tank_def dict_get_def fmt_def U_def)

lemma key_missile:
  "entity_key f missile = [0x5BFC, 0x5F39, 0x7C, 0x519B, 0x4E8B, 0x88C5, 0x5907]"
  by (simp add: entity_key_def missile_def dict_get_def fmt_def U_def)


text \<open>
  C1. For all entity lists, common + base_only is the number of distinct keys of the first
  list, and common + lora_only is the number of distinct keys of the second.
\<close>

theorem compare_entities_partition:
  "common (compare_entities f L1 L2) + base_only (compare_entities f L1 L2)
     = int (length (remdups (map (entity_key f) L1)))
   \<and> common (compare_entities f L1 L2) + lora_only (compare_entities f L1 L2)
     = int (length (remdups (map (entity_key f) L2)))"
proof -
  let ?A = "set (map (entity_key f) L1)" and ?B = "set (map (entity_key f) L2)"
  have a: "card (?A \<inter> ?B) + card (?A - ?B) = card ?A"
    by (rule card_Int_Diff_split) simp
  have "card (?B \<inter> ?A) + card (?B - ?A) = card ?B"
    by (rule card_Int_Diff_split) simp
  then have b: "card (?A \<inter> ?B) + card (?B - ?A) = card ?B"
    by (simp add: Int_commute)
  have "int (card (?A \<inter> ?B)) + int (card (?A - ?B)) = int (card ?A)"
    using a by linarith
  moreover have "int (card (?A \<inter> ?B)) + int (card (?B - ?A)) = int (card ?B)"
    using b by linarith
  ultimately show ?thesis
    by (simp add: compare_entities_def Let_def length_remdups_card_conv)
qed

theorem compare_entities_partition_witness:
  "common (compare_entities str_unused [tank, tank] [tank, missile])
     + base_only (compare_entities str_unused [tank, tank] [tank, missile]) = 1
   \<and> common (compare_entities str_unused [tank, tank] [tank, missile])
     + lora_only (compare_entities str_unused [tank, tank] [tank, missile]) = 2"
  using compare_entities_partition [of str_unused "[tank, tank]" "[tank, missile]"]
  by (simp add: key_tank key_missile)

text \<open>
  C7. The improvement is the length of the second list minus the length of the first,
  duplicates counted.
\<close>

theorem compare_entities_improvement:
  "improvement (compare_entities f L1 L2) = int (length L2) - int (length L1)"
  by (simp add: compare_entities_def Let_def)

theorem compare_entities_improvement_witness:
  "improvement (compare_entities str_unused [tank] [tank, tank]) = 1
   \<and> int (length (remdups (map (entity_key str_unused) [tank, tank])))
       - int (length (remdups (map (entity_key str_unused) [tank]))) = 0"
  using compare_entities_improvement [of str_unused "[tank]" "[tank, tank]"]
  by simp

text \<open>
  C2 as the specification states it asks for six fields, all zero. Without a ground truth
  the result has no field for any of the three counts.
\<close>

theorem calculate_metrics_no_ground_truth_counterexample:
  "map_of (calculate_metrics str_unused None [tank]) (U ''true_positives'') = None
   \<and> map_of (calculate_metrics str_unused (Some []) [tank]) (U ''false_positives'') = None
   \<and> map_of (calculate_metrics str_unused (Some []) [tank]) (U ''false_negatives'') = None"
  by (simp add: calculate_metrics_def U_def)

text \<open>
  C2, as the code has it. Without a ground truth (None or the empty list) the result holds
  the three fields precision, recall and f1, each zero, whatever the predictions are; the
  three counts are not fields of it.
\<close>

theorem calculate_metrics_no_ground_truth:
  "gt = None \<or> gt = Some [] \<Longrightarrow>
   calculate_metrics f gt P
     = [(U ''precision'', PyFloat 0), (U ''recall'', PyFloat 0), (U ''f1'', PyFloat 0)]
   \<and> map_of (calculate_metrics f gt P) (U ''true_positives'') = None
   \<and> map_of (calculate_metrics f gt P) (U ''false_positives'') = None
   \<and> map_of (calculate_metrics f gt P) (U ''false_negatives'') = None"
  by (auto simp: calculate_metrics_def U_def)

theorem calculate_metrics_no_ground_truth_witness:
  "calculate_metrics str_unused (Some []) [tank, missile]
     = [(U ''precision'', PyFloat 0), (U ''recall'', PyFloat 0), (U ''f1'', PyFloat 0)]
   \<and> calculate_metrics str_unused None [tank, missile]
     = [(U ''precision'', PyFloat 0), (U ''recall'', PyFloat 0), (U ''f1'', PyFloat 0)]"
  using calculate_metrics_no_ground_truth [of "Some []" str_unused "[tank, missile]"]
    calculate_metrics_no_ground_truth [of None str_unused "[tank, missile]"]
  by simp





lemma ratio_nonneg: "0 \<le> (a::int) \<Longrightarrow> 0 \<le> b \<Longrightarrow> (0::rat) \<le> of_int a / of_int (a + b)"
  by simp






section \<open>Response parser: proofs\<close>

lemma except_pass_returns: "\<exists>v. except_pass r = Inr v"
  by (cases r) (auto simp: except_pass_def split: sum.splits)

lemma extract_returns: "\<exists>v. extract_entities_from_response loads f t = Inr v"
  by (simp add: extract_entities_from_response_def except_pass_returns)

lemma startswith_brace: "startswith s (U ''{'') \<Longrightarrow> 0x7B \<in> set s"
  by (cases s) (auto simp: startswith_def U_def)

lemma match_at_no_brace: "c \<noteq> 0x7B \<Longrightarrow> match_at (c # cs) = None"
  by (simp add: match_at_def expect_def startswith_def U_def)

lemma findall_no_brace: "0x7B \<notin> set t \<Longrightarrow> findall t = []"
  by (induction t) (auto simp: match_at_no_brace)

lemma set_clean_text: "set (clean_text t) \<subseteq> set t"
  by (auto simp: clean_text_def Let_def dest: in_set_dropD)

lemma set_py_strip: "set (py_strip s) \<subseteq> set s"
proof
  fix x
  assume "x \<in> set (py_strip s)"
  then have "x \<in> set (dropWhile py_isspace (rev (dropWhile py_isspace s)))"
    by (simp add: py_strip_def)
  then have "x \<in> set (rev (dropWhile py_isspace s))" by (rule set_dropWhileD)
  then have "x \<in> set (dropWhile py_isspace s)" by simp
  then show "x \<in> set s" by (rule set_dropWhileD)
qed

lemma py_split_not_Nil: "py_split sep s \<noteq> []"
  by (induction s) (auto split: list.splits)

lemma set_py_split: "l \<in> set (py_split sep s) \<Longrightarrow> set l \<subseteq> set s"
proof (induction s arbitrary: l)
  case Nil
  then show ?case by simp
next
  case (Cons c cs)
  show ?case
  proof (cases "c = sep")
    case True
    with Cons show ?thesis by auto
  next
    case False
    obtain w ws where sp: "py_split sep cs = w # ws"
      using py_split_not_Nil [of sep cs] by (cases "py_split sep cs") auto
    with False Cons.prems have "l = c # w \<or> l \<in> set ws" by auto
    then show ?thesis
    proof
      assume "l = c # w"
      moreover have "set w \<subseteq> set cs" using Cons.IH [of w] sp by simp
      ultimately show ?thesis by auto
    next
      assume "l \<in> set ws"
      then have "set l \<subseteq> set cs" using Cons.IH [of l] sp by simp
      then show ?thesis by auto
    qed
  qed
qed

lemma scan_lines_no_brace: "\<forall>l\<in>set ls. 0x7B \<notin> set l \<Longrightarrow> scan_lines loads ls = Inr None"
proof (induction ls)
  case Nil
  then show ?case by simp
next
  case (Cons l ls)
  have "0x7B \<notin> set (py_strip l)" using Cons.prems set_py_strip [of l] by auto
  then have "\<not> startswith (py_strip l) (U ''{'')" using startswith_brace by blast
  with Cons show ?case by (simp add: Let_def)
qed

lemma parse_clean_no_brace:
  assumes "0x7B \<notin> set t"
  shows "parse_clean loads f t = ([], Inr (JArr []))"
proof -
  have "\<forall>l\<in>set (py_split 0xA (py_strip t)). 0x7B \<notin> set l"
    using assms set_py_split set_py_strip by blast
  then have "scan_lines loads (py_split 0xA (py_strip t)) = Inr None"
    by (rule scan_lines_no_brace)
  then show ?thesis
    by (simp add: parse_clean_def findall_no_brace [OF assms])
qed

lemma extract_no_brace:
  assumes "0x7B \<notin> set t"
  shows "extract_entities_from_response loads f t = Inr (JArr [])"
proof -
  have "0x7B \<notin> set (clean_text t)" using assms set_clean_text by blast
  then show ?thesis
    by (simp add: extract_entities_from_response_def try_block_def parse_clean_no_brace
        except_pass_def)
qed

subsection \<open>Searching a string\<close>

lemma startswith_append: "startswith (sub @ rest) sub"
  by (simp add: startswith_def)

lemma startswith_split: "startswith s sub \<Longrightarrow> s = sub @ drop (length sub) s"
  by (metis append_take_drop_id startswith_def)

lemma py_find_from_first:
  "\<forall>j<length pre. \<not> startswith (drop j (pre @ sub @ rest)) sub \<Longrightarrow>
   py_find_from i (pre @ sub @ rest) sub = int (i + length pre)"
proof (induction pre arbitrary: i)
  case Nil
  show ?case
  proof (cases "sub @ rest")
    case Nil
    then show ?thesis by simp
  next
    case (Cons c cs)
    have "startswith (c # cs) sub" using startswith_append [of sub rest] Cons by simp
    then show ?thesis using Cons by simp
  qed
next
  case (Cons p ps)
  have "\<not> startswith (drop 0 ((p # ps) @ sub @ rest)) sub"
    using Cons.prems by (auto simp del: drop_0)
  then have now: "\<not> startswith (p # ps @ sub @ rest) sub" by simp
  have "\<forall>j<length ps. \<not> startswith (drop j (ps @ sub @ rest)) sub"
  proof (intro allI impI)
    fix j assume "j < length ps"
    then have "Suc j < length (p # ps)" by simp
    then have "\<not> startswith (drop (Suc j) ((p # ps) @ sub @ rest)) sub"
      using Cons.prems by blast
    then show "\<not> startswith (drop j (ps @ sub @ rest)) sub" by simp
  qed
  then have "py_find_from (Suc i) (ps @ sub @ rest) sub = int (Suc i + length ps)"
    by (rule Cons.IH)
  then show ?case using now by simp
qed

lemma py_find_from_absent:
  "\<not> (\<exists>a b. s = a @ sub @ b) \<Longrightarrow> py_find_from i s sub = - 1"
proof (induction s arbitrary: i)
  case Nil
  then have "sub \<noteq> []" by auto
  then show ?case by simp
next
  case (Cons c cs)
  have now: "\<not> startswith (c # cs) sub"
  proof
    assume "startswith (c # cs) sub"
    then have "c # cs = [] @ sub @ drop (length sub) (c # cs)"
      using startswith_split by fastforce
    then show False using Cons.prems by blast
  qed
  have "\<not> (\<exists>a b. cs = a @ sub @ b)"
  proof
    assume "\<exists>a b. cs = a @ sub @ b"
    then obtain a b where "cs = a @ sub @ b" by blast
    then have "c # cs = (c # a) @ sub @ b" by simp
    then show False using Cons.prems by blast
  qed
  then have "py_find_from (Suc i) cs sub = - 1" by (rule Cons.IH)
  then show ?case using now by simp
qed

lemma py_find_from_present:
  "py_find_from i (a @ sub @ b) sub \<ge> 0"
proof (induction a arbitrary: i)
  case Nil
  show ?case
  proof (cases "sub @ b")
    case Nil
    then show ?thesis by simp
  next
    case (Cons c cs)
    have "startswith (c # cs) sub" using startswith_append [of sub b] Cons by simp
    then show ?thesis using Cons by simp
  qed
next
  case (Cons p ps)
  then show ?case by simp
qed

lemma py_in_iff: "py_in sub s \<longleftrightarrow> (\<exists>a b. s = a @ sub @ b)"
proof
  assume "py_in sub s"
  then have "py_find_from 0 s sub \<noteq> - 1" by (simp add: py_in_def py_find_def)
  then show "\<exists>a b. s = a @ sub @ b" using py_find_from_absent by blast
next
  assume "\<exists>a b. s = a @ sub @ b"
  then show "py_in sub s" using py_find_from_present by (auto simp: py_in_def py_find_def)
qed

lemma clean_text_without_end:
  "\<not> (\<exists>a b. t = a @ U ''</think>'' @ b) \<Longrightarrow> clean_text t = t"
  using py_find_from_absent [of t "U ''</think>''" 0]
  by (simp add: clean_text_def py_find_def Let_def)

lemma clean_text_with_end:
  assumes "\<exists>a b. t = a @ U ''<think>'' @ b"
    and "t = pre @ U ''</think>'' @ rest"
    and "\<forall>j<length pre. take 8 (drop j t) \<noteq> U ''</think>''"
  shows "clean_text t = rest"
proof -
  have len: "length (U ''</think>'') = 8" by (simp add: U_def)
  have "py_in (U ''<think>'') t" using assms(1) by (simp add: py_in_iff)
  moreover have "\<forall>j<length pre. \<not> startswith (drop j (pre @ U ''</think>'' @ rest)) (U ''</think>'')"
    using assms(2,3) by (simp add: startswith_def len)
  then have "py_find t (U ''</think>'') = int (length pre)"
    using py_find_from_first [of pre "U ''</think>''" rest 0] assms(2) by (simp add: py_find_def)
  ultimately show ?thesis
    using assms(2) by (simp add: clean_text_def Let_def len nat_add_distrib)
qed

subsection \<open>The loop over the matches\<close>







subsection \<open>The loop that removes duplicates\<close>








subsection \<open>The loop over the lines\<close>

lemma scan_lines_passed_over:
  "passed_over loads l \<Longrightarrow> scan_lines loads (l # ls) = scan_lines loads ls"
  by (auto simp: passed_over_def braced_def Let_def py_contains_def)

lemma scan_lines_skip:
  "\<forall>p\<in>set pre. passed_over loads p \<Longrightarrow> scan_lines loads (pre @ ls) = scan_lines loads ls"
  by (induction pre) (simp_all add: scan_lines_passed_over del: scan_lines.simps)

lemma scan_lines_found:
  "braced l \<Longrightarrow> loads (py_strip l) = Inr (JObj d) \<Longrightarrow> map_of d (U ''entities'') = Some v \<Longrightarrow>
   scan_lines loads (l # ls) = Inr (Some v)"
  by (simp add: braced_def Let_def py_contains_def py_getitem_def)

subsection \<open>The sample documents\<close>











text \<open>
  C4. The parser returns for every text and raises nothing; a text without an opening brace,
  such as the sentence for "nothing found", gives the empty list; and when an exception
  leaves the block, the result is the list accumulated until then.
\<close>

theorem extract_never_raises:
  "(\<exists>v. extract_entities_from_response loads f t = Inr v)
   \<and> (0x7B \<notin> set t \<longrightarrow> extract_entities_from_response loads f t = Inr (JArr []))
   \<and> extract_entities_from_response loads f nothing_found = Inr (JArr [])
   \<and> (try_block loads f t = (ents, Inl e) \<longrightarrow>
        extract_entities_from_response loads f t = Inr (JArr ents))"
proof (intro conjI impI)
  show "\<exists>v. extract_entities_from_response loads f t = Inr v" by (rule extract_returns)
next
  assume "0x7B \<notin> set t"
  then show "extract_entities_from_response loads f t = Inr (JArr [])"
    by (rule extract_no_brace)
next
  have "0x7B \<notin> set nothing_found" by (simp add: nothing_found_def)
  then show "extract_entities_from_response loads f nothing_found = Inr (JArr [])"
    by (rule extract_no_brace)
next
  assume "try_block loads f t = (ents, Inl e)"
  then show "extract_entities_from_response loads f t = Inr (JArr ents)"
    by (simp add: extract_entities_from_response_def except_pass_def)
qed

theorem extract_never_raises_witness:
  "try_block sample_loads str_unused (json_str (src_tank @ U '', '' @ src_tank @ U '', 5''))
     = ([e_tank, e_tank, JInt 5], Inl AttributeError)
   \<and> extract_entities_from_response sample_loads str_unused
        (json_str (src_tank @ U '', '' @ src_tank @ U '', 5''))
     = Inr (JArr [e_tank, e_tank, JInt 5])"
proof -
  have h: "try_block sample_loads str_unused
             (json_str (src_tank @ U '', '' @ src_tank @ U '', 5''))
           = ([e_tank, e_tank, JInt 5], Inl AttributeError)"
    by code_simp
  show ?thesis
    using h extract_never_raises [of sample_loads str_unused
        "json_str (src_tank @ U '', '' @ src_tank @ U '', 5'')" "[e_tank, e_tank, JInt 5]"
        AttributeError]
    by simp
qed


lemma parse_clean_no_entities:
  assumes "extend_matches loads [] (findall c) = ([], None)"
  shows "except_pass (parse_clean loads f c)
           = (case scan_lines loads (py_split 0xA (py_strip c)) of
                Inr (Some v) \<Rightarrow> Inr v
              | _ \<Rightarrow> Inr (JArr []))"
  using assms
  by (simp add: parse_clean_def except_pass_def split: sum.splits option.splits)






subsection \<open>The reasoning markers\<close>

lemma py_find_from_range: "py_find_from i s sub = - 1 \<or> py_find_from i s sub \<ge> int i"
proof (induction s arbitrary: i)
  case Nil
  then show ?case by simp
next
  case (Cons c cs)
  show ?case using Cons [of "Suc i"] by auto
qed

lemma py_find_from_least:
  "py_find_from i s sub = int (i + n) \<Longrightarrow> j < n \<Longrightarrow> \<not> startswith (drop j s) sub"
proof (induction s arbitrary: i n j)
  case Nil
  then show ?case by (simp split: if_splits)
next
  case (Cons c cs)
  show ?case
  proof (cases "startswith (c # cs) sub")
    case True
    with Cons.prems show ?thesis by simp
  next
    case False
    then have r: "py_find_from (Suc i) cs sub = int (i + n)" using Cons.prems(1) by simp
    then have "int (i + n) \<ge> int (Suc i)" using py_find_from_range [of "Suc i" cs sub] by linarith
    then obtain n' where n: "n = Suc n'" by (cases n) auto
    show ?thesis
    proof (cases j)
      case 0
      then show ?thesis using False by simp
    next
      case (Suc j')
      then have "j' < n'" using Cons.prems(2) n by simp
      moreover have "py_find_from (Suc i) cs sub = int (Suc i + n')" using r n by simp
      ultimately have "\<not> startswith (drop j' cs) sub" using Cons.IH by blast
      then show ?thesis using Suc by simp
    qed
  qed
qed

lemma py_find_least:
  assumes "py_find s sub = int n" and "length sub = m"
  shows "\<forall>j<n. take m (drop j s) \<noteq> sub"
  using py_find_from_least [of 0 s sub n] assms by (auto simp: py_find_def startswith_def)

text \<open>
  C9. A text with the opening marker and no closing marker is parsed as it is. When the text
  has the opening marker and a closing marker, the text after the first closing marker is
  what is parsed.
\<close>

theorem think_markers:
  "((\<exists>a b. t = a @ U ''<think>'' @ b) \<and> \<not> (\<exists>a b. t = a @ U ''</think>'' @ b)
      \<longrightarrow> extract_entities_from_response loads f t = except_pass (parse_clean loads f t))
   \<and> ((\<exists>a b. t = a @ U ''<think>'' @ b) \<and> t = pre @ U ''</think>'' @ rest
        \<and> (\<forall>j<length pre. take 8 (drop j t) \<noteq> U ''</think>'')
      \<longrightarrow> extract_entities_from_response loads f t = except_pass (parse_clean loads f rest))"
proof (intro conjI impI)
  assume "(\<exists>a b. t = a @ U ''<think>'' @ b) \<and> \<not> (\<exists>a b. t = a @ U ''</think>'' @ b)"
  then have "clean_text t = t" using clean_text_without_end by blast
  then show "extract_entities_from_response loads f t = except_pass (parse_clean loads f t)"
    by (simp add: extract_entities_from_response_def try_block_def)
next
  assume h: "(\<exists>a b. t = a @ U ''<think>'' @ b) \<and> t = pre @ U ''</think>'' @ rest
        \<and> (\<forall>j<length pre. take 8 (drop j t) \<noteq> U ''</think>'')"
  have "clean_text t = rest"
    by (rule clean_text_with_end [of t pre rest]) (use h in blast)+
  then show "extract_entities_from_response loads f t = except_pass (parse_clean loads f rest)"
    by (simp add: extract_entities_from_response_def try_block_def)
qed

theorem think_markers_witness:
  "extract_entities_from_response sample_loads str_unused (U ''<think>'' @ json_str src_tank)
     = except_pass (parse_clean sample_loads str_unused (U ''<think>'' @ json_str src_tank))
   \<and> extract_entities_from_response sample_loads str_unused
        (U ''<think>'' @ json_str src_tank @ U ''</think>'' @ nothing_found)
     = except_pass (parse_clean sample_loads str_unused nothing_found)
   \<and> except_pass (parse_clean sample_loads str_unused (U ''<think>'' @ json_str src_tank))
     = Inr (JArr [e_tank])
   \<and> except_pass (parse_clean sample_loads str_unused nothing_found) = Inr (JArr [])"
proof -
  let ?t1 = "U ''<think>'' @ json_str src_tank"
  let ?pre = "U ''<think>'' @ json_str src_tank"
  let ?t2 = "U ''<think>'' @ json_str src_tank @ U ''</think>'' @ nothing_found"
  have o1: "\<exists>a b. ?t1 = a @ U ''<think>'' @ b"
    by (rule exI [of _ "[]"], rule exI [of _ "json_str src_tank"]) simp
  have "\<not> py_in (U ''</think>'') ?t1" by code_simp
  then have c1: "\<not> (\<exists>a b. ?t1 = a @ U ''</think>'' @ b)" using py_in_iff by blast
  have o2: "\<exists>a b. ?t2 = a @ U ''<think>'' @ b"
    by (rule exI [of _ "[]"], rule exI [of _ "json_str src_tank @ U ''</think>'' @ nothing_found"])
      simp
  have s2: "?t2 = ?pre @ U ''</think>'' @ nothing_found" by simp
  have "py_find ?t2 (U ''</think>'') = int (length ?pre)" by code_simp
  moreover have "length (U ''</think>'') = 8" by (simp add: U_def)
  ultimately have f2: "\<forall>j<length ?pre. take 8 (drop j ?t2) \<noteq> U ''</think>''"
    by (rule py_find_least)
  have v1: "except_pass (parse_clean sample_loads str_unused ?t1) = Inr (JArr [e_tank])"
    by code_simp
  have v2: "except_pass (parse_clean sample_loads str_unused nothing_found) = Inr (JArr [])"
    by code_simp
  have r1: "extract_entities_from_response sample_loads str_unused ?t1
              = except_pass (parse_clean sample_loads str_unused ?t1)"
    by (rule think_markers [THEN conjunct1, rule_format, OF conjI [OF o1 c1]])
  have r2: "extract_entities_from_response sample_loads str_unused ?t2
              = except_pass (parse_clean sample_loads str_unused nothing_found)"
    by (rule think_markers [THEN conjunct2, rule_format, OF conjI [OF o2 conjI [OF s2 f2]]])
  show ?thesis
    by (intro conjI) (rule r1, rule r2, rule v1, rule v2)
qed

subsection \<open>The fallback\<close>

lemma fallback_result:
  assumes "extend_matches loads [] (findall (clean_text t)) = ([], None)"
    and "py_split 0xA (py_strip (clean_text t)) = pre @ l # later"
    and "\<forall>p\<in>set pre. passed_over loads p"
    and "braced l" and "loads (py_strip l) = Inr (JObj d)"
    and "map_of d (U ''entities'') = Some v"
  shows "extract_entities_from_response loads f t = Inr v"
proof -
  have "scan_lines loads (pre @ l # later) = scan_lines loads (l # later)"
    by (rule scan_lines_skip [OF assms(3)])
  also have "\<dots> = Inr (Some v)"
    using assms(4) assms(5) assms(6) by (rule scan_lines_found)
  finally have "scan_lines loads (py_split 0xA (py_strip (clean_text t))) = Inr (Some v)"
    unfolding assms(2) .
  then show ?thesis
    using parse_clean_no_entities [OF assms(1), of f]
    by (simp add: extract_entities_from_response_def try_block_def)
qed

text \<open>
  C10. When the loop over the matches leaves the list empty and the loop over the lines
  reaches a line that starts with an opening brace, ends with a closing brace and is read
  by json.loads as an object with a field entities, the parser returns the value of that
  field as it is. That value can hold the same key twice, and it can be something that is
  no list.
\<close>

theorem fallback_returns_verbatim:
  "(extend_matches loads [] (findall (clean_text t)) = ([], None)
     \<and> py_split 0xA (py_strip (clean_text t)) = pre @ l # later
     \<and> (\<forall>p\<in>set pre. passed_over loads p)
     \<and> braced l \<and> loads (py_strip l) = Inr (JObj d) \<and> map_of d (U ''entities'') = Some v
    \<longrightarrow> extract_entities_from_response loads f t = Inr v)
   \<and> extract_entities_from_response sample_loads str_unused line_with_duplicates
       = Inr (JArr [e_tank, e_tank])
   \<and> \<not> distinct (map (key_text str_unused) [e_tank, e_tank])
   \<and> extract_entities_from_response sample_loads str_unused (U ''{\"entities\": 5}'')
       = Inr (JInt 5)"
proof (intro conjI impI)
  assume "extend_matches loads [] (findall (clean_text t)) = ([], None)
     \<and> py_split 0xA (py_strip (clean_text t)) = pre @ l # later
     \<and> (\<forall>p\<in>set pre. passed_over loads p)
     \<and> braced l \<and> loads (py_strip l) = Inr (JObj d) \<and> map_of d (U ''entities'') = Some v"
  then show "extract_entities_from_response loads f t = Inr v"
    using fallback_result [of loads t pre l later d v f] by blast
next
  show "extract_entities_from_response sample_loads str_unused line_with_duplicates
       = Inr (JArr [e_tank, e_tank])"
    by code_simp
next
  show "\<not> distinct (map (key_text str_unused) [e_tank, e_tank])" by simp
next
  show "extract_entities_from_response sample_loads str_unused (U ''{\"entities\": 5}'')
       = Inr (JInt 5)"
    by code_simp
qed

theorem fallback_returns_verbatim_witness:
  "extend_matches sample_loads []
      (findall (clean_text (U ''note:'' @ [0xA] @ line_with_duplicates))) = ([], None)
   \<and> py_split 0xA (py_strip (clean_text (U ''note:'' @ [0xA] @ line_with_duplicates)))
       = [U ''note:''] @ line_with_duplicates # []
   \<and> passed_over sample_loads (U ''note:'')
   \<and> braced line_with_duplicates
   \<and> extract_entities_from_response sample_loads str_unused
        (U ''note:'' @ [0xA] @ line_with_duplicates) = Inr (JArr [e_tank, e_tank])"
proof -
  let ?t = "U ''note:'' @ [0xA] @ line_with_duplicates"
  let ?d = "[(U ''ok'', JBool True), (U ''entities'', JArr [e_tank, e_tank])]"
  have h1: "extend_matches sample_loads [] (findall (clean_text ?t)) = ([], None)"
    by code_simp
  have h2: "py_split 0xA (py_strip (clean_text ?t)) = [U ''note:''] @ line_with_duplicates # []"
    by code_simp
  have nb: "\<not> braced (U ''note:'')" by code_simp
  then have po: "passed_over sample_loads (U ''note:'')" by (simp add: passed_over_def)
  then have h3: "\<forall>p\<in>set [U ''note:'']. passed_over sample_loads p" by simp
  have h4: "braced line_with_duplicates" by code_simp
  have h5: "sample_loads (py_strip line_with_duplicates) = Inr (JObj ?d)" by code_simp
  have h6: "map_of ?d (U ''entities'') = Some (JArr [e_tank, e_tank])" by (simp add: U_def)
  have "extract_entities_from_response sample_loads str_unused ?t = Inr (JArr [e_tank, e_tank])"
    by (rule fallback_returns_verbatim [THEN conjunct1, rule_format,
          OF conjI [OF h1 conjI [OF h2 conjI [OF h3 conjI [OF h4 conjI [OF h5 h6]]]]]])
  then show ?thesis using h1 h2 po h4 by blast
qed

subsection \<open>Dispatcher\<close>








end
